theory Spec2Isabelle
  imports Complex_Main "HOL-Library.Sublist"
begin

section \<open>Resume classification backend\<close>

text \<open>
  The development embeds the pure parts of \<^verbatim>\<open>backend/utils.py\<close> (the six field
  extractors) and of \<^verbatim>\<open>predict_resume\<close> in \<^verbatim>\<open>backend/main.py\<close> (feature encoding,
  label clean-up, the top-3 role list and the recommendation text).

  Python strings are lists of characters; probabilities and confidences, which the
  program holds as floats and only ever compares, are real numbers. The trained
  artifacts (classifier, encoder, scaler, vectorizer) are inputs of the functions that
  use them.
\<close>

subsection \<open>Exceptions\<close>

datatype py_error = ValueError | IndexError

subsection \<open>Python strings\<close>

text \<open>
  A text is a list of 8-bit characters and stands for an ASCII string: the character
  classes below are Python's, restricted to ASCII. Characters above 127 are in no class.
\<close>

definition code_point :: "char \<Rightarrow> nat" where
  "code_point c = of_char c"

definition newline :: char where
  "newline = CHR 0x0A"

text \<open>\<^verbatim>\<open>str.isspace\<close>, which is also the class \<^verbatim>\<open>\s\<close>: tab, line feed, vertical tab,
  form feed, carriage return, the four separators 0x1C-0x1F and the space.\<close>

definition isspace :: "char \<Rightarrow> bool" where
  "isspace c =
     ((9 \<le> code_point c \<and> code_point c \<le> 13) \<or> (28 \<le> code_point c \<and> code_point c \<le> 32))"

definition isupper :: "char \<Rightarrow> bool" where
  "isupper c = (65 \<le> code_point c \<and> code_point c \<le> 90)"

definition islower :: "char \<Rightarrow> bool" where
  "islower c = (97 \<le> code_point c \<and> code_point c \<le> 122)"

definition isdigit :: "char \<Rightarrow> bool" where
  "isdigit c = (48 \<le> code_point c \<and> code_point c \<le> 57)"

definition iscased :: "char \<Rightarrow> bool" where
  "iscased c = (isupper c \<or> islower c)"

text \<open>The class \<^verbatim>\<open>\w\<close>: letters, digits and the underscore.\<close>

definition isword :: "char \<Rightarrow> bool" where
  "isword c = (isupper c \<or> islower c \<or> isdigit c \<or> c = CHR ''_'')"

definition char_lower :: "char \<Rightarrow> char" where
  "char_lower c = (if isupper c then char_of (code_point c + 32) else c)"

definition char_upper :: "char \<Rightarrow> char" where
  "char_upper c = (if islower c then char_of (code_point c - 32) else c)"

text \<open>\<^verbatim>\<open>str.lower\<close>.\<close>

definition lower :: "string \<Rightarrow> string" where
  "lower s = map char_lower s"

text \<open>\<^verbatim>\<open>str.title\<close>: a character that follows a cased character is lowered, any other is
  raised. The flag says whether the previous character was cased.\<close>

fun title_from :: "bool \<Rightarrow> string \<Rightarrow> string" where
  "title_from previous_is_cased [] = []"
| "title_from previous_is_cased (c # cs) =
     (if previous_is_cased then char_lower c else char_upper c) # title_from (iscased c) cs"

definition title :: "string \<Rightarrow> string" where
  "title s = title_from False s"

text \<open>\<^verbatim>\<open>str.strip\<close> with no argument.\<close>

definition strip :: "string \<Rightarrow> string" where
  "strip s = rev (dropWhile isspace (rev (dropWhile isspace s)))"

text \<open>\<^verbatim>\<open>str.split(sep)\<close> for a one-character separator and \<^verbatim>\<open>re.split\<close> for a
  one-character class: \<open>n\<close> separators give \<open>n + 1\<close> pieces, empty ones included
  (so the list of pieces is never empty).\<close>

fun split_on :: "(char \<Rightarrow> bool) \<Rightarrow> string \<Rightarrow> string list" where
  "split_on sep [] = [[]]"
| "split_on sep (c # cs) =
     (if sep c then [] # split_on sep cs
      else (case split_on sep cs of piece # pieces \<Rightarrow> (c # piece) # pieces | [] \<Rightarrow> [[c]]))"

text \<open>\<^verbatim>\<open>sub in s\<close> for strings.\<close>

fun contains :: "string \<Rightarrow> string \<Rightarrow> bool" where
  "contains sub [] = (sub = [])"
| "contains sub (c # cs) = (prefix sub (c # cs) \<or> contains sub cs)"

text \<open>\<^verbatim>\<open>sep.join(xs)\<close>.\<close>

fun join :: "string \<Rightarrow> string list \<Rightarrow> string" where
  "join sep [] = []"
| "join sep [x] = x"
| "join sep (x # y # ys) = x @ sep @ join sep (y # ys)"

text \<open>\<^verbatim>\<open>int(s)\<close> on a string of decimal digits.\<close>

definition int_of_digits :: "string \<Rightarrow> int" where
  "int_of_digits s = foldl (\<lambda>n c. 10 * n + int (code_point c - 48)) 0 s"

subsection \<open>Regular expressions\<close>

text \<open>
  The fragment of Python's \<^verbatim>\<open>re\<close> that the extractors use: character classes, sequence,
  alternation, the greedy star of a class, the word boundary \<^verbatim>\<open>\b\<close> and one capture
  group. A greedy \<^verbatim>\<open>X?\<close> is \<open>Alt X Eps\<close>, a lazy \<^verbatim>\<open>X??\<close> is \<open>Alt Eps X\<close>, and
  \<^verbatim>\<open>X+\<close> on a class is the class followed by its star.
\<close>

datatype regex =
    Eps
  | Cls "char \<Rightarrow> bool"
  | Bnd
  | Seq regex regex
  | Alt regex regex
  | Star "char \<Rightarrow> bool"
  | Grp regex

text \<open>
  A matcher state is the character before the current position (none at the start of
  the text), the text still to read, and the text captured by the group so far.
  \<open>rmatch r s\<close> lists the states in which a match of \<open>r\<close> from \<open>s\<close> can end, in
  the order in which the backtracking matcher tries them; the head of the list is the
  match the matcher reports.
\<close>

type_synonym mstate = "char option \<times> string \<times> string option"

fun rmatch :: "regex \<Rightarrow> mstate \<Rightarrow> mstate list" where
  "rmatch Eps s = [s]"
| "rmatch (Cls P) (prev, [], g) = []"
| "rmatch (Cls P) (prev, c # cs, g) = (if P c then [(Some c, cs, g)] else [])"
| "rmatch Bnd (prev, cs, g) =
     (if (case prev of None \<Rightarrow> False | Some p \<Rightarrow> isword p)
         \<noteq> (case cs of [] \<Rightarrow> False | c # _ \<Rightarrow> isword c)
      then [(prev, cs, g)] else [])"
| "rmatch (Seq r1 r2) s = concat (map (rmatch r2) (rmatch r1 s))"
| "rmatch (Alt r1 r2) s = rmatch r1 s @ rmatch r2 s"
| "rmatch (Star P) (prev, [], g) = [(prev, [], g)]"
| "rmatch (Star P) (prev, c # cs, g) =
     (if P c then rmatch (Star P) (Some c, cs, g) @ [(prev, c # cs, g)]
      else [(prev, c # cs, g)])"
| "rmatch (Grp r) (prev, cs, g) =
     map (\<lambda>(prev', cs', g'). (prev', cs', Some (take (length cs - length cs') cs)))
       (rmatch r (prev, cs, g))"

text \<open>What \<^verbatim>\<open>findall\<close> lists for a match that starts at \<open>cs\<close> and ends in the given
  state: the group when the pattern has one, the whole match otherwise.\<close>

fun match_item :: "string \<Rightarrow> mstate \<Rightarrow> string" where
  "match_item cs (prev', cs', Some captured) = captured"
| "match_item cs (prev', cs', None) = take (length cs - length cs') cs"

text \<open>
  \<^verbatim>\<open>re.findall(r, text)\<close>: the non-overlapping matches from left to right. The
  counter is the number of characters still to skip because they belong to the match
  found last.
\<close>

fun findall_scan :: "regex \<Rightarrow> nat \<Rightarrow> char option \<Rightarrow> string \<Rightarrow> string list" where
  "findall_scan r skip prev [] =
     (case rmatch r (prev, [], None) of [] \<Rightarrow> [] | m # _ \<Rightarrow> [match_item [] m])"
| "findall_scan r (Suc skip) prev (c # cs) = findall_scan r skip (Some c) cs"
| "findall_scan r 0 prev (c # cs) =
     (case rmatch r (prev, c # cs, None) of
        [] \<Rightarrow> findall_scan r 0 (Some c) cs
      | m # _ \<Rightarrow>
          match_item (c # cs) m
            # findall_scan r (length cs - length (fst (snd m))) (Some c) cs)"

definition findall :: "regex \<Rightarrow> string \<Rightarrow> string list" where
  "findall r text = findall_scan r 0 None text"

text \<open>\<^verbatim>\<open>re.search(r, text)\<close> as a truth value: some position of the text starts a match.\<close>

fun search_from :: "regex \<Rightarrow> char option \<Rightarrow> string \<Rightarrow> bool" where
  "search_from r prev [] = (rmatch r (prev, [], None) \<noteq> [])"
| "search_from r prev (c # cs) =
     (rmatch r (prev, c # cs, None) \<noteq> [] \<or> search_from r (Some c) cs)"

definition search :: "regex \<Rightarrow> string \<Rightarrow> bool" where
  "search r text = search_from r None text"

definition chr :: "char \<Rightarrow> regex" where
  "chr c = Cls (\<lambda>x. x = c)"

definition plus :: "(char \<Rightarrow> bool) \<Rightarrow> regex" where
  "plus P = Seq (Cls P) (Star P)"

fun lit :: "string \<Rightarrow> regex" where
  "lit [] = Eps"
| "lit (c # cs) = Seq (chr c) (lit cs)"

subsection \<open>Field extractors (\<^verbatim>\<open>utils.py\<close>)\<close>

text \<open>\<^verbatim>\<open>\b[\w.+-]+@[\w.-]+\.\w+\<close>\<close>

definition email_re :: regex where
  "email_re =
     Seq Bnd (Seq (plus (\<lambda>c. isword c \<or> c \<in> set ''.+-''))
       (Seq (chr CHR ''@'') (Seq (plus (\<lambda>c. isword c \<or> c \<in> set ''.-''))
         (Seq (chr CHR ''.'') (plus isword)))))"

definition get_email :: "string \<Rightarrow> string" where
  "get_email text = (case findall email_re text of [] \<Rightarrow> ''Not Found'' | e # _ \<Rightarrow> e)"

text \<open>\<^verbatim>\<open>(\d{3}[-\.\s]??\d{3}[-\.\s]??\d{4}|\(\d{3}\)\s*\d{3}[-\.\s]??\d{4})\<close>\<close>

definition digits3 :: regex where
  "digits3 = Seq (Cls isdigit) (Seq (Cls isdigit) (Cls isdigit))"

definition separator :: regex where
  "separator = Alt Eps (Cls (\<lambda>c. c \<in> set ''-.'' \<or> isspace c))"

definition phone_re :: regex where
  "phone_re =
     Grp (Alt
       (Seq digits3 (Seq separator (Seq digits3 (Seq separator (Seq digits3 (Cls isdigit))))))
       (Seq (chr CHR ''('') (Seq digits3 (Seq (chr CHR '')'') (Seq (Star isspace)
         (Seq digits3 (Seq separator (Seq digits3 (Cls isdigit)))))))))"

definition get_phone :: "string \<Rightarrow> string" where
  "get_phone text = (case findall phone_re text of [] \<Rightarrow> ''Not Found'' | p # _ \<Rightarrow> p)"

text \<open>\<^verbatim>\<open>re.sub(r'([a-z])([A-Z])', r'\1 \2', name)\<close>: a space goes between a lower-case
  letter and the upper-case letter after it; the scan goes on behind the pair.\<close>

fun sub_lower_upper :: "string \<Rightarrow> string" where
  "sub_lower_upper (a # b # cs) =
     (if islower a \<and> isupper b then a # CHR '' '' # b # sub_lower_upper cs
      else a # sub_lower_upper (b # cs))"
| "sub_lower_upper cs = cs"

text \<open>
  \<^verbatim>\<open>
  for line in lines:
      if line.strip():
          name = line.strip().title()
          name = re.sub(r'([a-z])([A-Z])', r'\1 \2', name)
          return name
  return "Not Found"
  \<close>
\<close>

fun get_name_loop :: "string list \<Rightarrow> string" where
  "get_name_loop [] = ''Not Found''"
| "get_name_loop (line # lines) =
     (if strip line \<noteq> [] then sub_lower_upper (title (strip line))
      else get_name_loop lines)"

definition get_name :: "string \<Rightarrow> string" where
  "get_name text = get_name_loop (split_on (\<lambda>c. c = newline) text)"

definition degrees :: "string list" where
  "degrees = [''bachelor'', ''master'', ''phd'', ''diploma'', ''degree'', ''bsc'', ''msc'',
              ''ba'', ''ma'', ''b.sc'', ''m.sc'']"

text \<open>\<^verbatim>\<open>re.split(r'[.\n]', text)\<close>\<close>

definition sentences :: "string \<Rightarrow> string list" where
  "sentences text = split_on (\<lambda>c. c = CHR ''.'' \<or> c = newline) text"

text \<open>
  The inner loop of \<^verbatim>\<open>get_education\<close>, over \<^verbatim>\<open>enumerate(sentences_lower)\<close>; the value is
  the list \<^verbatim>\<open>education_info\<close> when the loop ends. The two sentence lists have the same
  length (\<open>length_sentences_lower\<close> below), so \<^verbatim>\<open>sentences_original[i]\<close> is in range.
  \<^verbatim>\<open>
  for i, sentence in enumerate(sentences_lower):
      if degree in sentence and len(sentence) < 200:
          edu = sentences_original[i].strip().title()
          education_info.append(edu)
          break
  \<close>
\<close>

fun sentence_loop :: "string \<Rightarrow> string list \<Rightarrow> nat \<Rightarrow> string list \<Rightarrow> string list" where
  "sentence_loop degree sentences_original i [] = []"
| "sentence_loop degree sentences_original i (sentence # rest) =
     (if contains degree sentence \<and> length sentence < 200
      then [title (strip (sentences_original ! i))]
      else sentence_loop degree sentences_original (Suc i) rest)"

text \<open>
  The outer loop, which ends at the first keyword found in the lowered text:
  \<^verbatim>\<open>
  for degree in degrees:
      if degree in text_lower:
          ...
          break
  \<close>
\<close>

fun degree_loop :: "string \<Rightarrow> string list \<Rightarrow> string list" where
  "degree_loop text [] = []"
| "degree_loop text (degree # rest) =
     (if contains degree (lower text)
      then sentence_loop degree (sentences text) 0 (sentences (lower text))
      else degree_loop text rest)"

definition get_education :: "string \<Rightarrow> string" where
  "get_education text =
     (case degree_loop text degrees of [] \<Rightarrow> ''Not Found'' | edu # _ \<Rightarrow> edu)"

text \<open>\<^verbatim>\<open>(\d+)\+?\s*(?:-\s*\d+)?\s*years?\<close>\<close>

definition experience_re :: regex where
  "experience_re =
     Seq (Grp (plus isdigit)) (Seq (Alt (chr CHR ''+'') Eps) (Seq (Star isspace)
       (Seq (Alt (Seq (chr CHR ''-'') (Seq (Star isspace) (plus isdigit))) Eps)
         (Seq (Star isspace) (Seq (lit ''year'') (Alt (chr CHR ''s'') Eps))))))"

definition get_experience :: "string \<Rightarrow> int" where
  "get_experience text =
     (case findall experience_re (lower text) of [] \<Rightarrow> 0 | e # _ \<Rightarrow> int_of_digits e)"

definition skill_keywords :: "string list" where
  "skill_keywords = [''python'', ''java'', ''javascript'', ''sql'', ''r'', ''c++'', ''c#'',
     ''machine learning'', ''deep learning'', ''data analysis'', ''statistics'',
     ''tableau'', ''power bi'', ''excel'', ''aws'', ''azure'', ''cloud'',
     ''git'', ''docker'', ''kubernetes'', ''tensorflow'', ''pytorch'',
     ''html'', ''css'', ''react'', ''angular'', ''node.js'', ''flask'', ''django'']"

text \<open>\<^verbatim>\<open>r'\b' + re.escape(word) + r'\b'\<close>\<close>

definition word_re :: "string \<Rightarrow> regex" where
  "word_re word = Seq Bnd (Seq (lit word) Bnd)"

definition get_skills :: "string \<Rightarrow> string" where
  "get_skills text =
     (let found = filter (\<lambda>word. search (word_re word) (lower text)) skill_keywords
      in if found \<noteq> [] then join '', '' found else ''None'')"

record candidate_info =
  name :: string
  email :: string
  phone :: string
  education :: string
  experience_years :: int
  skills :: string

definition extract_resume_info :: "string \<Rightarrow> candidate_info" where
  "extract_resume_info text =
     \<lparr>name = get_name text, email = get_email text, phone = get_phone text,
      education = get_education text, experience_years = get_experience text,
      skills = get_skills text\<rparr>"

subsection \<open>Feature encoding (\<^verbatim>\<open>main.py\<close>, lines 109-129)\<close>

text \<open>
  The education encoder is a label encoder: a table from the categories it was fitted on
  to their codes. Its \<^verbatim>\<open>transform\<close> raises \<^verbatim>\<open>ValueError\<close> on a category outside the table.
\<close>

definition transform :: "(string \<rightharpoonup> int) \<Rightarrow> string \<Rightarrow> py_error + int" where
  "transform education_encoder y =
     (case education_encoder y of None \<Rightarrow> Inl ValueError | Some code \<Rightarrow> Inr code)"

text \<open>
  \<^verbatim>\<open>
  education = candidate_info['education'] if candidate_info['education'] != "Not Found" else "not found"
  try:
      X_education = education_encoder.transform([education]).reshape(-1, 1)
  except ValueError:
      X_education = np.array([[0]])
  \<close>
\<close>

definition X_education :: "(string \<rightharpoonup> int) \<Rightarrow> candidate_info \<Rightarrow> py_error + real" where
  "X_education education_encoder info =
     (let education' =
            (if education info \<noteq> ''Not Found'' then education info else ''not found'')
      in case transform education_encoder education' of
           Inr code \<Rightarrow> Inr (of_int code)
         | Inl ValueError \<Rightarrow> Inr 0
         | Inl e \<Rightarrow> Inl e)"

text \<open>
  \<^verbatim>\<open>
  skills = candidate_info['skills'] if candidate_info['skills'] != "None" else ""
  X_skills = skills_vectorizer.transform([skills])
  \<close>
\<close>

definition X_skills :: "(string \<Rightarrow> real list) \<Rightarrow> candidate_info \<Rightarrow> real list" where
  "X_skills skills_vectorizer info =
     (let skills' = (if skills info \<noteq> ''None'' then skills info else [])
      in skills_vectorizer skills')"

text \<open>The feature row \<^verbatim>\<open>hstack([X_experience_sparse, X_education_sparse, X_skills])\<close>;
  the scaler and the vectorizer are the functions their \<^verbatim>\<open>transform\<close> computes.\<close>

definition resume_vectorized ::
  "(real \<Rightarrow> real) \<Rightarrow> (string \<rightharpoonup> int) \<Rightarrow> (string \<Rightarrow> real list) \<Rightarrow> candidate_info
     \<Rightarrow> py_error + real list" where
  "resume_vectorized experience_scaler education_encoder skills_vectorizer info =
     (let X_experience = experience_scaler (of_int (experience_years info))
      in case X_education education_encoder info of
           Inl e \<Rightarrow> Inl e
         | Inr x_education \<Rightarrow>
             Inr ([X_experience] @ [x_education] @ X_skills skills_vectorizer info))"

subsection \<open>Role labels (\<^verbatim>\<open>main.py\<close>, lines 137-140 and 166-170)\<close>

text \<open>\<^verbatim>\<open>s.rsplit('_', 1)[0]\<close>: everything before the last underscore of \<open>s\<close>
  (all of \<open>s\<close> when it has none).\<close>

definition rsplit_head :: "string \<Rightarrow> string" where
  "rsplit_head s =
     (if CHR ''_'' \<in> set s then rev (tl (dropWhile (\<lambda>c. c \<noteq> CHR ''_'') (rev s))) else s)"

text \<open>
  \<^verbatim>\<open>
  if '_' in str(role_raw):
      role_name = role_raw.rsplit('_', 1)[0]
  else:
      role_name = role_raw
  \<close>
\<close>

definition role_name :: "string \<Rightarrow> string" where
  "role_name role_raw =
     (if CHR ''_'' \<in> set role_raw then rsplit_head role_raw else role_raw)"

subsection \<open>Top-3 role matches (\<^verbatim>\<open>main.py\<close>, lines 160-182)\<close>

record RoleMatch =
  role :: string
  confidence :: real

text \<open>
  \<^verbatim>\<open>role_probabilities.argsort()\<close> returns the indices of the array in ascending order
  of their values. The call names no sort kind, and the default kind is not stable: the
  order of indices with equal values is the library's choice. \<open>ascending_order probs srt\<close>
  says that \<open>srt\<close> is a possible result: every index once, values ascending.
\<close>

definition ascending_order :: "real list \<Rightarrow> nat list \<Rightarrow> bool" where
  "ascending_order probs srt =
     (distinct srt \<and> set srt = {0..<length probs} \<and> sorted (map (\<lambda>i. probs ! i) srt))"

text \<open>
  One such result, the one that keeps equal values in index order, is used to run the
  model on concrete arrays. What is stated about classes of equal probability is stated
  for every ascending order.
\<close>

definition argsort :: "real list \<Rightarrow> nat list" where
  "argsort probs = sort_key (\<lambda>i. probs ! i) [0..<length probs]"

text \<open>The slices \<^verbatim>\<open>[-3:][::-1]\<close> of the sorted indices: the last three (all of them
  when there are fewer), reversed.\<close>

definition visit_order :: "nat list \<Rightarrow> nat list" where
  "visit_order srt = rev (drop (length srt - 3) srt)"

text \<open>\<^verbatim>\<open>top_3_indices = role_probabilities.argsort()[-3:][::-1]\<close>\<close>

definition top_3_indices :: "real list \<Rightarrow> nat list" where
  "top_3_indices probs = visit_order (argsort probs)"

text \<open>
  The loop over \<^verbatim>\<open>top_3_indices\<close>, with its two variables \<^verbatim>\<open>seen_roles\<close> and
  \<^verbatim>\<open>top_3_roles\<close> passed along. Reading \<^verbatim>\<open>classes_[idx]\<close> past the end of the class
  array raises \<^verbatim>\<open>IndexError\<close>.
  \<^verbatim>\<open>
  for idx in top_3_indices:
      role_raw = role_classifier.classes_[idx]
      ... role_name ...
      if role_name not in seen_roles:
          seen_roles.add(role_name)
          top_3_roles.append(RoleMatch(role=role_name,
                                       confidence=float(role_probabilities[idx])))
      if len(top_3_roles) >= 3:
          break
  \<close>
\<close>

fun top_3_loop ::
  "string list \<Rightarrow> real list \<Rightarrow> nat list \<Rightarrow> string set \<Rightarrow> RoleMatch list
     \<Rightarrow> py_error + RoleMatch list" where
  "top_3_loop classes probs [] seen_roles top_3_roles = Inr top_3_roles"
| "top_3_loop classes probs (idx # rest) seen_roles top_3_roles =
     (if length classes \<le> idx then Inl IndexError
      else
        let rn = role_name (classes ! idx);
            seen_roles' = (if rn \<notin> seen_roles then insert rn seen_roles else seen_roles);
            top_3_roles' =
              (if rn \<notin> seen_roles
               then top_3_roles @ [\<lparr>role = rn, confidence = probs ! idx\<rparr>]
               else top_3_roles)
        in if length top_3_roles' \<ge> 3 then Inr top_3_roles'
           else top_3_loop classes probs rest seen_roles' top_3_roles')"

definition top_3_roles_of :: "string list \<Rightarrow> real list \<Rightarrow> py_error + RoleMatch list" where
  "top_3_roles_of classes probs = top_3_loop classes probs (top_3_indices probs) {} []"

subsection \<open>Recommendation text (\<^verbatim>\<open>main.py\<close>, lines 184-193)\<close>

definition recommendation :: "bool \<Rightarrow> real \<Rightarrow> string" where
  "recommendation is_suitable suitability_confidence =
     (if is_suitable then
        (if suitability_confidence \<ge> 0.8 then ''Strong candidate match.''
         else if suitability_confidence \<ge> 0.6 then ''Good candidate match.''
         else ''Review candidate properly'')
      else ''Not a good fit'')"

section \<open>Role labels\<close>

lemma rsplit_head_split:
  assumes "CHR ''_'' \<notin> set b"
  shows "rsplit_head (a @ CHR ''_'' # b) = a"
proof -
  have "dropWhile (\<lambda>c. c \<noteq> CHR ''_'') (rev b @ CHR ''_'' # rev a) = CHR ''_'' # rev a"
    using assms by (subst dropWhile_append2) auto
  then show ?thesis by (simp add: rsplit_head_def)
qed

lemma role_name_plain: "CHR ''_'' \<notin> set s \<Longrightarrow> role_name s = s"
  by (simp add: role_name_def)

lemma role_name_one_underscore:
  assumes "count_list s CHR ''_'' \<le> 1"
  shows "role_name (role_name s) = role_name s"
proof (cases "CHR ''_'' \<in> set s")
  case False
  then show ?thesis by (simp add: role_name_def)
next
  case True
  then obtain a b where s: "s = a @ CHR ''_'' # b" and b: "CHR ''_'' \<notin> set b"
    using split_list_last by fastforce
  from assms s have "count_list a CHR ''_'' = 0" by simp
  then have a: "CHR ''_'' \<notin> set a" by (simp add: count_list_0_iff)
  have "role_name s = a" using s b True by (simp add: role_name_def rsplit_head_split)
  then show ?thesis using a by (simp add: role_name_def)
qed

text \<open>
  C8, as stated, fails: a label with two underscores loses one segment at each
  application, so normalizing the already-normalized name \<^verbatim>\<open>Data_Analyst\<close> changes it
  again.
\<close>

theorem role_name_twice_counterexample:
  "role_name (role_name ''Data_Analyst_select'') \<noteq> role_name ''Data_Analyst_select''"
  by (simp add: role_name_def rsplit_head_def)

text \<open>
  C8, amended: normalizing a role name that contains no underscore returns it unchanged,
  and normalization is idempotent on every label with at most one underscore.
\<close>

theorem role_name_fixes_plain_names:
  "(CHR ''_'' \<notin> set s \<longrightarrow> role_name s = s)
   \<and> (count_list s CHR ''_'' \<le> 1 \<longrightarrow> role_name (role_name s) = role_name s)"
  using role_name_plain role_name_one_underscore by blast

theorem role_name_fixes_plain_names_witness:
  "CHR ''_'' \<notin> set ''Data Analyst'' \<and> role_name ''Data Analyst'' = ''Data Analyst''
   \<and> count_list ''Data Analyst_select'' CHR ''_'' \<le> 1
   \<and> role_name (role_name ''Data Analyst_select'') = ''Data Analyst''"
proof -
  have h1: "CHR ''_'' \<notin> set ''Data Analyst''" by simp
  have h2: "count_list ''Data Analyst_select'' CHR ''_'' \<le> 1" by simp
  have e: "role_name ''Data Analyst_select'' = ''Data Analyst''"
    by (simp add: role_name_def rsplit_head_def)
  show ?thesis
    using role_name_fixes_plain_names [of "''Data Analyst''"]
      role_name_fixes_plain_names [of "''Data Analyst_select''"] h1 h2 e
    by simp
qed

section \<open>The order in which classes are visited\<close>

lemma argsort_ascending: "ascending_order probs (argsort probs)"
  by (simp add: ascending_order_def argsort_def atLeast_upt)

lemma length_visit_order: "length (visit_order srt) = min (length srt) 3"
  by (simp add: visit_order_def)

text \<open>The class visited in place \<open>i\<close> is the one the sort returns in place \<open>i\<close>
  from the end.\<close>

lemma visit_order_nth:
  assumes "i < length (visit_order srt)"
  shows "visit_order srt ! i = srt ! (length srt - Suc i)"
proof -
  let ?k = "length srt - 3"
  have i: "i < length (drop ?k srt)"
    using assms by (simp add: visit_order_def)
  have "visit_order srt ! i = drop ?k srt ! (length (drop ?k srt) - Suc i)"
    unfolding visit_order_def using i by (rule rev_nth)
  also have "\<dots> = srt ! (?k + (length (drop ?k srt) - Suc i))"
    using i by simp
  also have "?k + (length (drop ?k srt) - Suc i) = length srt - Suc i"
    using i by simp
  finally show ?thesis .
qed

lemma visit_order_descending:
  assumes "ascending_order probs srt"
  shows "sorted_wrt (\<lambda>a b. probs ! b \<le> probs ! a) (visit_order srt)"
proof -
  have "sorted_wrt (\<lambda>a b. probs ! a \<le> probs ! b) srt"
    using assms by (simp add: ascending_order_def sorted_map)
  then have "sorted_wrt (\<lambda>a b. probs ! a \<le> probs ! b) (drop (length srt - 3) srt)"
    by (rule sorted_wrt_drop)
  then show ?thesis
    by (simp add: visit_order_def sorted_wrt_rev)
qed

lemma set_visit_order:
  assumes "ascending_order probs srt"
  shows "set (visit_order srt) \<subseteq> {0..<length probs}"
proof -
  have "set (visit_order srt) \<subseteq> set srt"
    by (simp add: visit_order_def set_drop_subset)
  then show ?thesis using assms by (simp add: ascending_order_def)
qed

text \<open>
  C3, as stated, fails: for two classes of equal probability the sort returns the
  indices in class order, and the class of index 1 is visited, and listed, before the
  class of index 0.
\<close>

theorem tied_classes_follow_class_order_counterexample:
  "ascending_order [0.5, 0.5] [0, 1]
   \<and> visit_order [0, 1] = [1, 0]
   \<and> top_3_indices [0.5, 0.5] = [1, 0]
   \<and> top_3_roles_of [''Analyst'', ''Engineer''] [0.5, 0.5]
       = Inr [\<lparr>role = ''Engineer'', confidence = 0.5\<rparr>, \<lparr>role = ''Analyst'', confidence = 0.5\<rparr>]"
proof -
  have "ascending_order [0.5, 0.5] [0, 1]"
    by (auto simp: ascending_order_def)
  moreover have "visit_order [0, 1] = [1, 0]"
    by (simp add: visit_order_def)
  moreover have "top_3_indices [0.5, 0.5] = [1, 0]"
    by (simp add: top_3_indices_def visit_order_def argsort_def upt_rec)
  moreover have "top_3_roles_of [''Analyst'', ''Engineer''] [0.5, 0.5]
       = Inr [\<lparr>role = ''Engineer'', confidence = 0.5\<rparr>, \<lparr>role = ''Analyst'', confidence = 0.5\<rparr>]"
    by (simp add: top_3_roles_of_def top_3_indices_def visit_order_def argsort_def upt_rec
        role_name_def)
  ultimately show ?thesis by blast
qed

text \<open>
  C3, amended: classes are visited in descending order of probability, and the code
  applies no tie-break of its own: whatever ascending order the index sort returns, the
  class visited in place \<open>i\<close> is the one the sort returns in place \<open>i\<close> from the end, so
  classes with equal probabilities are visited in the reverse of the order in which the
  sort returns them. That order is not fixed by the code, and tied classes need not be
  visited in class order.
\<close>

theorem tied_classes_visited_in_reverse_of_sort_order:
  assumes "ascending_order probs srt" and "i < j" and "j < length (visit_order srt)"
  shows "probs ! (visit_order srt ! j) \<le> probs ! (visit_order srt ! i)
         \<and> visit_order srt ! i = srt ! (length srt - Suc i)
         \<and> visit_order srt ! j = srt ! (length srt - Suc j)
         \<and> length srt - Suc j < length srt - Suc i"
proof -
  have i: "i < length (visit_order srt)"
    using assms(2,3) by simp
  have "probs ! (visit_order srt ! j) \<le> probs ! (visit_order srt ! i)"
    using sorted_wrt_nth_less [OF visit_order_descending [OF assms(1)] assms(2,3)] .
  moreover have "length srt - Suc j < length srt - Suc i"
    using assms(2,3) by (simp add: length_visit_order) arith
  ultimately show ?thesis
    using visit_order_nth [OF i] visit_order_nth [OF assms(3)] by simp
qed

text \<open>Both orders of two tied classes are ascending orders, and each is visited in
  reverse.\<close>

theorem tied_classes_visited_in_reverse_of_sort_order_witness:
  "ascending_order [0.5, 0.5] [0, 1] \<and> (0::nat) < 1 \<and> 1 < length (visit_order [0, 1])
   \<and> visit_order [0, 1] ! 0 = 1 \<and> visit_order [0, 1] ! 1 = 0
   \<and> ascending_order [0.5, 0.5] [1, 0] \<and> 1 < length (visit_order [1, 0])
   \<and> visit_order [1, 0] ! 0 = 0 \<and> visit_order [1, 0] ! 1 = 1"
proof -
  have a1: "ascending_order [0.5, 0.5] [0, 1]"
    by (auto simp: ascending_order_def)
  have a2: "ascending_order [0.5, 0.5] [1, 0]"
    by (auto simp: ascending_order_def)
  have h: "(0::nat) < 1" by simp
  have l1: "1 < length (visit_order [0, 1])" by (simp add: visit_order_def)
  have l2: "1 < length (visit_order [1, 0])" by (simp add: visit_order_def)
  show ?thesis
    using tied_classes_visited_in_reverse_of_sort_order [OF a1 h l1]
      tied_classes_visited_in_reverse_of_sort_order [OF a2 h l2] a1 a2 l1 l2
    by simp
qed

section \<open>The top-3 role list\<close>

lemma top_3_loop_returns:
  "\<forall>idx\<in>set idxs. idx < length classes
     \<Longrightarrow> \<exists>r. top_3_loop classes probs idxs seen acc = Inr r"
  by (induction idxs arbitrary: seen acc) (auto simp: Let_def)

lemma top_3_loop_distinct:
  "top_3_loop classes probs idxs (role ` set acc) acc = Inr r
     \<Longrightarrow> distinct (map role acc) \<Longrightarrow> distinct (map role r)"
proof (induction idxs arbitrary: acc)
  case Nil
  then show ?case by simp
next
  case (Cons idx rest)
  let ?name = "role_name (classes ! idx)"
  let ?new = "\<lparr>role = ?name, confidence = probs ! idx\<rparr>"
  have seen: "insert ?name (role ` set acc) = role ` set (acc @ [?new])"
    by simp
  show ?case
  proof (cases "?name \<in> role ` set acc")
    case True
    with Cons.prems have "r = acc \<or> top_3_loop classes probs rest (role ` set acc) acc = Inr r"
      by (auto simp: Let_def split: if_splits)
    then show ?thesis using Cons.IH Cons.prems(2) by blast
  next
    case False
    then have d: "distinct (map role (acc @ [?new]))"
      using Cons.prems(2) by simp
    from False Cons.prems(1)
    have "r = acc @ [?new]
          \<or> top_3_loop classes probs rest (role ` set (acc @ [?new])) (acc @ [?new]) = Inr r"
      unfolding seen [symmetric] by (auto simp: Let_def split: if_splits)
    then show ?thesis using Cons.IH [OF _ d] d by blast
  qed
qed

lemma top_3_loop_length:
  "top_3_loop classes probs idxs seen acc = Inr r \<Longrightarrow> length acc < 3 \<Longrightarrow> length r \<le> 3"
proof (induction idxs arbitrary: seen acc)
  case Nil
  then show ?case by simp
next
  case (Cons idx rest)
  then show ?case
    by (auto simp: Let_def split: if_splits)
qed

lemma top_3_loop_sorted:
  "top_3_loop classes probs idxs seen acc = Inr r
     \<Longrightarrow> sorted_wrt (\<lambda>a b. probs ! b \<le> probs ! a) idxs
     \<Longrightarrow> sorted_wrt (\<lambda>a b. confidence b \<le> confidence a) acc
     \<Longrightarrow> \<forall>m\<in>set acc. \<forall>i\<in>set idxs. probs ! i \<le> confidence m
     \<Longrightarrow> sorted_wrt (\<lambda>a b. confidence b \<le> confidence a) r"
proof (induction idxs arbitrary: seen acc)
  case Nil
  then show ?case by simp
next
  case (Cons idx rest)
  then show ?case
    by (auto simp: Let_def sorted_wrt_append split: if_splits)
qed

lemma top_3_loop_first_seen:
  "top_3_loop classes probs idxs seen acc = Inr r \<Longrightarrow> m \<in> set r \<Longrightarrow> m \<notin> set acc
     \<Longrightarrow> \<exists>pre i post. idxs = pre @ i # post
           \<and> m = \<lparr>role = role_name (classes ! i), confidence = probs ! i\<rparr>
           \<and> role m \<notin> seen
           \<and> (\<forall>j\<in>set pre. role_name (classes ! j) \<noteq> role m)"
proof (induction idxs arbitrary: seen acc)
  case Nil
  then show ?case by simp
next
  case (Cons idx rest)
  let ?name = "role_name (classes ! idx)"
  let ?new = "\<lparr>role = ?name, confidence = probs ! idx\<rparr>"
  from Cons.prems(1) have inrange: "idx < length classes"
    by (auto split: if_splits)
  show ?case
  proof (cases "?name \<in> seen")
    case True
    with Cons.prems inrange
    have run: "top_3_loop classes probs rest seen acc = Inr r"
      by (auto simp: Let_def split: if_splits)
    from Cons.IH [OF run Cons.prems(2,3)]
    obtain pre i post where *: "rest = pre @ i # post"
        "m = \<lparr>role = role_name (classes ! i), confidence = probs ! i\<rparr>"
        "role m \<notin> seen" "\<forall>j\<in>set pre. role_name (classes ! j) \<noteq> role m"
      by blast
    have "idx # rest = (idx # pre) @ i # post" using * by simp
    moreover have "\<forall>j\<in>set (idx # pre). role_name (classes ! j) \<noteq> role m"
      using * True by auto
    ultimately show ?thesis using * by blast
  next
    case False
    show ?thesis
    proof (cases "m = ?new")
      case True
      have "idx # rest = [] @ idx # rest" by simp
      then show ?thesis using True False by fastforce
    next
      case neq: False
      with Cons.prems inrange False
      have run: "top_3_loop classes probs rest (insert ?name seen) (acc @ [?new]) = Inr r"
        and notin: "m \<notin> set (acc @ [?new])"
        by (auto simp: Let_def split: if_splits)
      from Cons.IH [OF run Cons.prems(2) notin]
      obtain pre i post where *: "rest = pre @ i # post"
        "m = \<lparr>role = role_name (classes ! i), confidence = probs ! i\<rparr>"
        "role m \<notin> insert ?name seen" "\<forall>j\<in>set pre. role_name (classes ! j) \<noteq> role m"
        by blast
      have "idx # rest = (idx # pre) @ i # post" using * by simp
      moreover have "\<forall>j\<in>set (idx # pre). role_name (classes ! j) \<noteq> role m"
        using * by auto
      moreover have "role m \<notin> seen" using * by simp
      ultimately show ?thesis using * by blast
    qed
  qed
qed

text \<open>The walk over the visit order of any ascending order of the probabilities: the
  order of classes with equal probabilities plays no part.\<close>

lemma top_3_walk_any_ascending_order:
  assumes "ascending_order probs srt" and "length classes = length probs"
  shows "\<exists>r. top_3_loop classes probs (visit_order srt) {} [] = Inr r
             \<and> distinct (map role r)
             \<and> length r \<le> 3
             \<and> sorted_wrt (\<lambda>a b. confidence b \<le> confidence a) r
             \<and> (\<forall>m\<in>set r. \<exists>pre i post.
                    visit_order srt = pre @ i # post
                  \<and> m = \<lparr>role = role_name (classes ! i), confidence = probs ! i\<rparr>
                  \<and> (\<forall>j\<in>set pre. role_name (classes ! j) \<noteq> role m))"
proof -
  let ?v = "visit_order srt"
  have "\<forall>idx\<in>set ?v. idx < length classes"
    using set_visit_order [OF assms(1)] assms(2) by auto
  then obtain r where r: "top_3_loop classes probs ?v {} [] = Inr r"
    using top_3_loop_returns by blast
  have "top_3_loop classes probs ?v (role ` set []) [] = Inr r"
    using r by simp
  then have d: "distinct (map role r)"
    by (rule top_3_loop_distinct) simp
  have l: "length r \<le> 3"
    using r by (rule top_3_loop_length) simp
  have "sorted_wrt (\<lambda>a b. probs ! b \<le> probs ! a) ?v"
    using assms(1) by (rule visit_order_descending)
  then have s: "sorted_wrt (\<lambda>a b. confidence b \<le> confidence a) r"
    using top_3_loop_sorted [OF r] by simp
  have f: "\<exists>pre i post. ?v = pre @ i # post
             \<and> m = \<lparr>role = role_name (classes ! i), confidence = probs ! i\<rparr>
             \<and> (\<forall>j\<in>set pre. role_name (classes ! j) \<noteq> role m)" if "m \<in> set r" for m
    using top_3_loop_first_seen [OF r that] by auto
  show ?thesis
    using r d l s f by blast
qed

text \<open>
  C9: for a classifier with one probability per class, the top-3 list is returned, its
  role names are pairwise distinct, it has at most 3 entries, its confidences descend,
  and each entry carries the probability of the first visited raw label that normalizes
  to its role name.
\<close>

theorem top_3_roles_unique_bounded_descending:
  assumes "length classes = length probs"
  shows "\<exists>r. top_3_roles_of classes probs = Inr r
             \<and> distinct (map role r)
             \<and> length r \<le> 3
             \<and> sorted_wrt (\<lambda>a b. confidence b \<le> confidence a) r
             \<and> (\<forall>m\<in>set r. \<exists>pre i post.
                    top_3_indices probs = pre @ i # post
                  \<and> m = \<lparr>role = role_name (classes ! i), confidence = probs ! i\<rparr>
                  \<and> (\<forall>j\<in>set pre. role_name (classes ! j) \<noteq> role m))"
  unfolding top_3_roles_of_def top_3_indices_def
  using argsort_ascending assms by (rule top_3_walk_any_ascending_order)

theorem top_3_roles_unique_bounded_descending_witness:
  "length [''A_select'', ''A_reject'', ''B_select''] = length [0.5, 0.3, 0.2 :: real]
   \<and> (\<exists>r. top_3_roles_of [''A_select'', ''A_reject'', ''B_select''] [0.5, 0.3, 0.2] = Inr r
         \<and> distinct (map role r) \<and> length r \<le> 3
         \<and> sorted_wrt (\<lambda>a b. confidence b \<le> confidence a) r)"
proof -
  have h: "length [''A_select'', ''A_reject'', ''B_select''] = length [0.5, 0.3, 0.2 :: real]"
    by simp
  show ?thesis
    using h top_3_roles_unique_bounded_descending [OF h] by blast
qed

text \<open>
  C1 at a classifier with four classes and three distinct role names: only the three
  most probable raw labels are walked, two of them normalize to the same role, and the
  list has two entries although a third role exists.
\<close>

theorem top_3_roles_short_despite_third_role:
  "top_3_roles_of [''A_select'', ''A_reject'', ''B_select'', ''C_select''] [0.4, 0.3, 0.2, 0.1]
     = Inr [\<lparr>role = ''A'', confidence = 0.4\<rparr>, \<lparr>role = ''B'', confidence = 0.2\<rparr>]
   \<and> remdups (map role_name [''A_select'', ''A_reject'', ''B_select'', ''C_select''])
     = [''A'', ''B'', ''C'']"
  by (simp add: top_3_roles_of_def top_3_indices_def visit_order_def argsort_def upt_rec
      role_name_def rsplit_head_def)

section \<open>The recommendation text\<close>

text \<open>
  C7: the recommendation is a function of \<open>is_suitable\<close> and the confidence, with the
  three tiers for a suitable candidate, both boundaries in the higher tier, and one text
  for an unsuitable candidate whatever the confidence.
\<close>

theorem recommendation_tiers:
  "(0.8 \<le> c \<longrightarrow> recommendation True c = ''Strong candidate match.'')
   \<and> (0.6 \<le> c \<and> c < 0.8 \<longrightarrow> recommendation True c = ''Good candidate match.'')
   \<and> (c < 0.6 \<longrightarrow> recommendation True c = ''Review candidate properly'')
   \<and> recommendation False c = ''Not a good fit''
   \<and> recommendation True 0.8 = ''Strong candidate match.''
   \<and> recommendation True 0.6 = ''Good candidate match.''"
  by (simp add: recommendation_def)

theorem recommendation_tiers_witness:
  "(0.8::real) \<le> 0.8 \<and> recommendation True 0.8 = ''Strong candidate match.''
   \<and> (0.6::real) \<le> 0.6 \<and> (0.6::real) < 0.8 \<and> recommendation True 0.6 = ''Good candidate match.''
   \<and> (0.59::real) < 0.6 \<and> recommendation True 0.59 = ''Review candidate properly''
   \<and> recommendation False 0.99 = ''Not a good fit''"
  using recommendation_tiers [of "0.8"] recommendation_tiers [of "0.6"]
    recommendation_tiers [of "0.59"] recommendation_tiers [of "0.99"]
  by simp

section \<open>Characters and case\<close>

lemma code_point_eq_iff: "(c = d) = (code_point c = code_point d)"
  by (simp add: code_point_def)

lemma code_point_dot: "code_point CHR ''.'' = 46"
  by (simp add: code_point_def)

lemma code_point_newline: "code_point newline = 10"
  by (simp add: code_point_def newline_def)

lemma code_point_char_of: "n < 256 \<Longrightarrow> code_point (char_of n) = n"
  by (simp add: code_point_def)

lemma code_point_char_lower:
  "code_point (char_lower c) = (if isupper c then code_point c + 32 else code_point c)"
  by (simp add: char_lower_def isupper_def code_point_char_of)

lemma not_isupper_char_lower: "\<not> isupper (char_lower c)"
  by (simp add: isupper_def code_point_char_lower)

lemma uncased_unchanged: "\<not> iscased c \<Longrightarrow> char_lower c = c \<and> char_upper c = c"
  by (simp add: iscased_def char_lower_def char_upper_def)

lemma not_islower_uncased: "\<not> iscased c \<Longrightarrow> \<not> islower c"
  by (simp add: iscased_def)

lemma length_lower: "length (lower s) = length s"
  by (simp add: lower_def)

text \<open>Lowering a character neither makes nor removes a sentence separator.\<close>

lemma sentence_separator_lower:
  "(char_lower c = CHR ''.'' \<or> char_lower c = newline) = (c = CHR ''.'' \<or> c = newline)"
  unfolding code_point_eq_iff [of _ "CHR ''.''"] code_point_eq_iff [of _ newline]
    code_point_dot code_point_newline code_point_char_lower
  by (auto simp: isupper_def)

section \<open>Name extraction\<close>

text \<open>In a title-cased string an upper-case letter never follows a lower-case one, so
  the substitution that is to separate joined words finds nothing to do.\<close>

lemma title_from_no_lower_upper:
  "sub_lower_upper (title_from b s) = title_from b s"
proof (induction s arbitrary: b)
  case Nil
  then show ?case by simp
next
  case (Cons c cs)
  show ?case
  proof (cases cs)
    case Nil
    then show ?thesis by simp
  next
    case (Cons c' cs')
    define x where "x = (if b then char_lower c else char_upper c)"
    define y where "y = (if iscased c then char_lower c' else char_upper c')"
    define t where "t = title_from (iscased c') cs'"
    have pair: "\<not> (islower x \<and> isupper y)"
    proof (cases "iscased c")
      case True
      then show ?thesis by (simp add: y_def not_isupper_char_lower)
    next
      case False
      then have "x = c" using uncased_unchanged by (simp add: x_def)
      then show ?thesis using False not_islower_uncased by simp
    qed
    have tail: "title_from (iscased c) cs = y # t"
      by (simp add: Cons y_def t_def)
    have whole: "title_from b (c # cs) = x # y # t"
      by (simp add: tail x_def)
    have "sub_lower_upper (y # t) = y # t"
      using Cons.IH [of "iscased c"] by (simp add: tail)
    then have "sub_lower_upper (x # y # t) = x # y # t"
      using pair by auto
    then show ?thesis unfolding whole .
  qed
qed

lemma get_name_loop_find:
  "get_name_loop lines =
     (case find (\<lambda>line. strip line \<noteq> []) lines of
        None \<Rightarrow> ''Not Found''
      | Some line \<Rightarrow> sub_lower_upper (title (strip line)))"
  by (induction lines) auto

lemma get_name_inserts_no_space:
  "get_name text =
     (case find (\<lambda>line. strip line \<noteq> []) (split_on (\<lambda>c. c = newline) text) of
        None \<Rightarrow> ''Not Found''
      | Some line \<Rightarrow> title (strip line))"
  by (simp add: get_name_def get_name_loop_find title_def title_from_no_lower_upper
      split: option.splits)

text \<open>
  C2 at the first line \<^verbatim>\<open>JohnSmith\<close>: the line is title-cased before the word boundary
  is looked for, which lowers the inner capital, and the name comes out as
  \<^verbatim>\<open>Johnsmith\<close>, not \<^verbatim>\<open>John Smith\<close>.
\<close>

theorem get_name_JohnSmith: "get_name ''JohnSmith'' = ''Johnsmith''"
  by code_simp

section \<open>Education extraction\<close>

lemma split_on_nonempty: "split_on sep s \<noteq> []"
  by (induction s) (auto split: list.splits)

lemma split_on_map:
  assumes "\<And>c. sep (f c) = sep c"
  shows "split_on sep (map f s) = map (map f) (split_on sep s)"
proof (induction s)
  case Nil
  then show ?case by simp
next
  case (Cons c s)
  then show ?case using assms split_on_nonempty [of sep s]
    by (auto split: list.splits)
qed

lemma sentences_lower: "sentences (lower text) = map lower (sentences text)"
  unfolding sentences_def lower_def
  by (rule split_on_map) (rule sentence_separator_lower)

text \<open>The index into \<^verbatim>\<open>sentences_original\<close> is always in range.\<close>

lemma length_sentences_lower: "length (sentences (lower text)) = length (sentences text)"
  by (simp add: sentences_lower)

lemma sentence_loop_find:
  "sentence_loop degree (pre @ us) (length pre) (map lower us)
     = (case find (\<lambda>u. contains degree (lower u) \<and> length u < 200) us of
          None \<Rightarrow> [] | Some u \<Rightarrow> [title (strip u)])"
proof (induction us arbitrary: pre)
  case Nil
  then show ?case by simp
next
  case (Cons u us)
  have "sentence_loop degree ((pre @ [u]) @ us) (length (pre @ [u])) (map lower us)
     = (case find (\<lambda>u. contains degree (lower u) \<and> length u < 200) us of
          None \<Rightarrow> [] | Some u \<Rightarrow> [title (strip u)])"
    by (rule Cons.IH)
  then show ?case by (simp add: length_lower)
qed

lemma degree_loop_find:
  "degree_loop text ds
     = (case find (\<lambda>d. contains d (lower text)) ds of
          None \<Rightarrow> []
        | Some d \<Rightarrow> sentence_loop d (sentences text) 0 (sentences (lower text)))"
  by (induction ds) auto

lemma degree_loop_no_keyword:
  "\<forall>d\<in>set ds. \<not> contains d (lower text) \<Longrightarrow> degree_loop text ds = []"
  by (induction ds) auto

text \<open>
  C4, as stated, fails: the unit that is found is stripped of its surrounding white
  space before it is title-cased. In \<^verbatim>\<open>Skills. Bachelor of Arts\<close> the first unit with
  the keyword is \<^verbatim>\<open> Bachelor of Arts\<close>, with a leading space, and the result has none.
\<close>

theorem get_education_unstripped_counterexample:
  "find (\<lambda>d. contains d (lower ''Skills. Bachelor of Arts'')) degrees = Some ''bachelor''
   \<and> find (\<lambda>u. contains ''bachelor'' (lower u) \<and> length u < 200)
        (sentences ''Skills. Bachelor of Arts'')
       = Some '' Bachelor of Arts''
   \<and> get_education ''Skills. Bachelor of Arts'' = ''Bachelor Of Arts''
   \<and> get_education ''Skills. Bachelor of Arts'' \<noteq> title '' Bachelor of Arts''"
  by code_simp

text \<open>
  C4, amended: education extraction tries only the first degree keyword, in list order,
  that occurs in the lowered text; it splits the text into units on \<^verbatim>\<open>.\<close> or newline
  and returns the first unit shorter than 200 characters whose lowered copy contains
  that keyword, stripped of surrounding white space and title-cased; if there is no such
  unit, or no keyword occurs, the result is \<^verbatim>\<open>Not Found\<close>, with no fallback to a later
  keyword.
\<close>

theorem get_education_first_keyword_only:
  "get_education text =
     (case find (\<lambda>d. contains d (lower text)) degrees of
        None \<Rightarrow> ''Not Found''
      | Some d \<Rightarrow>
          (case find (\<lambda>u. contains d (lower u) \<and> length u < 200) (sentences text) of
             None \<Rightarrow> ''Not Found''
           | Some u \<Rightarrow> title (strip u)))"
proof -
  have "sentence_loop d (sentences text) 0 (sentences (lower text))
     = (case find (\<lambda>u. contains d (lower u) \<and> length u < 200) (sentences text) of
          None \<Rightarrow> [] | Some u \<Rightarrow> [title (strip u)])" for d
    using sentence_loop_find [of d "[]" "sentences text"] by (simp add: sentences_lower)
  then show ?thesis
    by (simp add: get_education_def degree_loop_find split: option.splits)
qed

text \<open>A text whose only unit with \<^verbatim>\<open>bachelor\<close> has 208 characters, followed by a short
  unit with \<^verbatim>\<open>master\<close>: the second keyword is not tried.\<close>

theorem get_education_first_keyword_only_witness:
  "find (\<lambda>d. contains d (lower (replicate 200 CHR ''x'' @ ''bachelor. master''))) degrees
       = Some ''bachelor''
   \<and> get_education (replicate 200 CHR ''x'' @ ''bachelor. master'') = ''Not Found''"
  using get_education_first_keyword_only [of "replicate 200 CHR ''x'' @ ''bachelor. master''"]
  by code_simp

section \<open>All six extractors\<close>

lemma findall_scan_no_match:
  "\<not> search_from r prev s \<Longrightarrow> findall_scan r 0 prev s = []"
  by (induction s arbitrary: prev) auto

lemma findall_no_match: "\<not> search r text \<Longrightarrow> findall r text = []"
  by (simp add: findall_def search_def findall_scan_no_match)

lemma no_email_match: "\<not> search email_re ''Jane Doe''"
  by code_simp

lemma no_phone_match: "\<not> search phone_re ''Jane Doe''"
  by code_simp

lemma no_degree_keyword: "\<forall>degree\<in>set degrees. \<not> contains degree (lower ''Jane Doe'')"
  by code_simp

lemma no_skill_keyword:
  "\<forall>word\<in>set skill_keywords. \<not> search (word_re word) (lower ''Jane Doe'')"
  by code_simp

lemma no_years_match: "\<not> search experience_re (lower ''Jane Doe'')"
  by code_simp

text \<open>
  C6: for a text in which no position starts a match of the email pattern, of the phone
  pattern or (lowered) of the years pattern, whose lowered copy contains no degree
  keyword and no skill keyword as a whole word, the six extractors give the name taken
  from the first non-blank line, or \<^verbatim>\<open>Not Found\<close>, and the five sentinel values. The
  extractors are total functions with no error value, and the profile is a record with
  all six fields.
\<close>

theorem extractors_return_sentinel_defaults:
  assumes "\<not> search email_re text"
    and "\<not> search phone_re text"
    and "\<forall>degree\<in>set degrees. \<not> contains degree (lower text)"
    and "\<forall>word\<in>set skill_keywords. \<not> search (word_re word) (lower text)"
    and "\<not> search experience_re (lower text)"
  shows "extract_resume_info text =
           \<lparr>name = (case find (\<lambda>line. strip line \<noteq> []) (split_on (\<lambda>c. c = newline) text) of
                      None \<Rightarrow> ''Not Found''
                    | Some line \<Rightarrow> sub_lower_upper (title (strip line))),
            email = ''Not Found'', phone = ''Not Found'', education = ''Not Found'',
            experience_years = 0, skills = ''None''\<rparr>"
proof -
  have n: "get_name text =
      (case find (\<lambda>line. strip line \<noteq> []) (split_on (\<lambda>c. c = newline) text) of
         None \<Rightarrow> ''Not Found''
       | Some line \<Rightarrow> sub_lower_upper (title (strip line)))"
    by (simp add: get_name_def get_name_loop_find)
  have e: "get_email text = ''Not Found''"
    using assms(1) by (simp add: get_email_def findall_no_match)
  have p: "get_phone text = ''Not Found''"
    using assms(2) by (simp add: get_phone_def findall_no_match)
  have d: "get_education text = ''Not Found''"
    using assms(3) by (simp add: get_education_def degree_loop_no_keyword)
  have "filter (\<lambda>word. search (word_re word) (lower text)) skill_keywords = []"
    using assms(4) by (simp add: filter_empty_conv)
  then have s: "get_skills text = ''None''"
    by (simp add: get_skills_def)
  have x: "get_experience text = 0"
    using assms(5) by (simp add: get_experience_def findall_no_match)
  show ?thesis
    unfolding extract_resume_info_def n e p d s x by simp
qed

theorem extractors_return_sentinel_defaults_witness:
  "\<not> search email_re ''Jane Doe''
   \<and> \<not> search phone_re ''Jane Doe''
   \<and> filter (\<lambda>degree. contains degree (lower ''Jane Doe'')) degrees = []
   \<and> filter (\<lambda>word. search (word_re word) (lower ''Jane Doe'')) skill_keywords = []
   \<and> \<not> search experience_re (lower ''Jane Doe'')
   \<and> extract_resume_info ''Jane Doe'' =
        \<lparr>name = ''Jane Doe'', email = ''Not Found'', phone = ''Not Found'',
         education = ''Not Found'', experience_years = 0, skills = ''None''\<rparr>"
proof -
  have n: "(case find (\<lambda>line. strip line \<noteq> []) (split_on (\<lambda>c. c = newline) ''Jane Doe'') of
              None \<Rightarrow> ''Not Found''
            | Some line \<Rightarrow> sub_lower_upper (title (strip line))) = ''Jane Doe''"
    by code_simp
  show ?thesis
    using extractors_return_sentinel_defaults
      [OF no_email_match no_phone_match no_degree_keyword no_skill_keyword no_years_match]
      no_email_match no_phone_match no_degree_keyword no_skill_keyword no_years_match
    unfolding n by (simp add: filter_empty_conv)
qed

section \<open>Feature encoding\<close>

text \<open>
  C5: when the education encoder raises on the category it is given, the education
  column is 0 and the feature row is returned; when the skills field is \<^verbatim>\<open>None\<close> the
  vectorizer is applied to the empty string, and its value at the text \<^verbatim>\<open>None\<close> never
  enters the row; encoding raises no error.
\<close>

theorem unseen_education_and_empty_skills:
  "(transform enc (if education info \<noteq> ''Not Found'' then education info else ''not found'')
       = Inl ValueError
      \<longrightarrow> X_education enc info = Inr 0
        \<and> resume_vectorized sc enc vec info
            = Inr (sc (of_int (experience_years info)) # 0 # X_skills vec info))
   \<and> (skills info = ''None'' \<longrightarrow> X_skills vec info = vec [])
   \<and> (\<forall>vec'. (\<forall>s. s \<noteq> ''None'' \<longrightarrow> vec' s = vec s)
         \<longrightarrow> resume_vectorized sc enc vec' info = resume_vectorized sc enc vec info)
   \<and> (\<exists>row. resume_vectorized sc enc vec info = Inr row)"
  by (auto simp: X_education_def X_skills_def resume_vectorized_def transform_def Let_def
      split: option.splits)

theorem unseen_education_and_empty_skills_witness:
  "transform [''bachelor of science'' \<mapsto> 1] ''Phd In Physics'' = Inl ValueError
   \<and> resume_vectorized (\<lambda>x. x / 10) [''bachelor of science'' \<mapsto> 1]
        (\<lambda>s. [of_nat (length s)])
        \<lparr>name = ''Jane Doe'', email = ''Not Found'', phone = ''Not Found'',
         education = ''Phd In Physics'', experience_years = 3, skills = ''None''\<rparr>
       = Inr [3 / 10, 0, 0]"
proof -
  let ?enc = "[''bachelor of science'' \<mapsto> (1::int)]"
  let ?info = "\<lparr>name = ''Jane Doe'', email = ''Not Found'', phone = ''Not Found'',
         education = ''Phd In Physics'', experience_years = 3, skills = ''None''\<rparr>"
  have h: "transform ?enc ''Phd In Physics'' = Inl ValueError"
    by (simp add: transform_def)
  show ?thesis
    using h unseen_education_and_empty_skills
      [of ?enc ?info "\<lambda>x. x / 10" "\<lambda>s. [of_nat (length s)]"]
    by simp
qed

text \<open>
  C10: when the education field is the sentinel \<^verbatim>\<open>Not Found\<close>, the education column is
  the encoder's code for \<^verbatim>\<open>not found\<close> when the encoder knows that category and 0
  otherwise; and, whatever the field, the column does not depend on what the encoder
  holds for the text \<^verbatim>\<open>Not Found\<close>, which is never passed to it.
\<close>

theorem not_found_education_is_lowered:
  assumes "education info = ''Not Found''"
  shows "X_education enc info
           = Inr (case enc ''not found'' of Some code \<Rightarrow> of_int code | None \<Rightarrow> 0)
         \<and> (\<forall>enc'. (\<forall>y. y \<noteq> ''Not Found'' \<longrightarrow> enc' y = enc y)
                \<longrightarrow> X_education enc' info = X_education enc info)"
  using assms
  by (auto simp: X_education_def transform_def Let_def split: option.splits)

theorem not_found_education_is_lowered_witness:
  "education \<lparr>name = ''Jane Doe'', email = ''Not Found'', phone = ''Not Found'',
         education = ''Not Found'', experience_years = 0, skills = ''None''\<rparr> = ''Not Found''
   \<and> X_education [''not found'' \<mapsto> 7, ''Not Found'' \<mapsto> 9]
        \<lparr>name = ''Jane Doe'', email = ''Not Found'', phone = ''Not Found'',
         education = ''Not Found'', experience_years = 0, skills = ''None''\<rparr> = Inr 7
   \<and> X_education Map.empty
        \<lparr>name = ''Jane Doe'', email = ''Not Found'', phone = ''Not Found'',
         education = ''Not Found'', experience_years = 0, skills = ''None''\<rparr> = Inr 0"
proof -
  let ?info = "\<lparr>name = ''Jane Doe'', email = ''Not Found'', phone = ''Not Found'',
         education = ''Not Found'', experience_years = 0, skills = ''None''\<rparr>"
  have h: "education ?info = ''Not Found''"
    by simp
  show ?thesis
    using not_found_education_is_lowered [OF h, of "[''not found'' \<mapsto> 7, ''Not Found'' \<mapsto> 9]"]
      not_found_education_is_lowered [OF h, of Map.empty]
    by simp
qed

end
